theory Spec2Isabelle
  imports Complex_Main
begin

section \<open>JavaScript numbers\<close>

text \<open>
  The animator of \<^verbatim>\<open>src/animator.js\<close> computes with JavaScript numbers. A number is
  modelled as a finite value, one of the two infinities, the negative zero or NaN; \<open>Fin 0\<close>
  is the positive zero. Division, \<^verbatim>\<open>Math.min\<close>, \<^verbatim>\<open><\<close>, \<^verbatim>\<open><=\<close> and \<^verbatim>\<open>===\<close> follow ECMAScript
  on the special values. On finite values the arithmetic is exact: a finite value is a
  rational and the rounding of a quotient to the nearest double is not modelled.
\<close>

datatype number = Fin rat | NegZero | PosInf | NegInf | NaN

definition is_zero :: "number \<Rightarrow> bool" where
  "is_zero n = (n = Fin 0 \<or> n = NegZero)"

definition is_inf :: "number \<Rightarrow> bool" where
  "is_inf n = (n = PosInf \<or> n = NegInf)"

fun sign_bit :: "number \<Rightarrow> bool" where
  "sign_bit (Fin x) = (x < 0)"
| "sign_bit NegZero = True"
| "sign_bit PosInf = False"
| "sign_bit NegInf = True"
| "sign_bit NaN = False"

fun magnitude :: "number \<Rightarrow> rat" where
  "magnitude (Fin x) = x"
| "magnitude _ = 0"

text \<open>The operator \<^verbatim>\<open>/\<close> on numbers (ECMAScript Number::divide).\<close>

definition js_div :: "number \<Rightarrow> number \<Rightarrow> number" where
  "js_div a b =
     (if a = NaN \<or> b = NaN then NaN
      else if (is_inf a \<and> is_inf b) \<or> (is_zero a \<and> is_zero b) then NaN
      else if is_inf a \<or> is_zero b then (if sign_bit a \<noteq> sign_bit b then NegInf else PosInf)
      else if is_zero a \<or> is_inf b then (if sign_bit a \<noteq> sign_bit b then NegZero else Fin 0)
      else Fin (magnitude a / magnitude b))"

text \<open>
  The position of a number other than NaN on the extended number line: the class
  (minus infinity, finite, plus infinity) and the value inside the finite class. Both
  zeros have the same position.
\<close>

fun line_pos :: "number \<Rightarrow> nat \<times> rat" where
  "line_pos NegInf = (0, 0)"
| "line_pos (Fin x) = (1, x)"
| "line_pos NegZero = (1, 0)"
| "line_pos PosInf = (2, 0)"
| "line_pos NaN = (3, 0)"

text \<open>The operators \<^verbatim>\<open><\<close>, \<^verbatim>\<open><=\<close> and \<^verbatim>\<open>===\<close> on numbers: every comparison with NaN is false.\<close>

definition js_lt :: "number \<Rightarrow> number \<Rightarrow> bool" where
  "js_lt a b =
     (a \<noteq> NaN \<and> b \<noteq> NaN \<and>
      (fst (line_pos a) < fst (line_pos b) \<or>
       (fst (line_pos a) = fst (line_pos b) \<and> snd (line_pos a) < snd (line_pos b))))"

definition strict_eq :: "number \<Rightarrow> number \<Rightarrow> bool" where
  "strict_eq a b = (a \<noteq> NaN \<and> b \<noteq> NaN \<and> line_pos a = line_pos b)"

definition js_le :: "number \<Rightarrow> number \<Rightarrow> bool" where
  "js_le a b = (js_lt a b \<or> strict_eq a b)"

text \<open>
  \<^verbatim>\<open>Math.min\<close> of two arguments: NaN if either is NaN, otherwise the smaller one, the
  negative zero counting as smaller than the positive zero.
\<close>

definition Math_min :: "number \<Rightarrow> number \<Rightarrow> number" where
  "Math_min a b =
     (if a = NaN \<or> b = NaN then NaN
      else if js_lt a b then a
      else if js_lt b a then b
      else if a = NegZero then a else b)"


section \<open>The animator and its host\<close>

text \<open>
  The object built by the constructor \<^verbatim>\<open>Animator\<close>, with the four properties of the
  source. A callback is a value of the type parameter \<open>'cb\<close>. Timestamps are the integers
  \<^verbatim>\<open>Date.now()\<close> returns; \<open>None\<close> is \<^verbatim>\<open>null\<close>. The argument of \<^verbatim>\<open>setDuration\<close> is taken as
  the number the division converts it to.
\<close>

record 'cb animator =
  duration :: number
  callbacks :: "'cb list"
  animationStartTime :: "int option"
  requestAnimationFrameID :: "nat option"

text \<open>
  What the animator acts on outside itself: the frame requests made with
  \<^verbatim>\<open>window.requestAnimationFrame\<close> and not yet dispatched (oldest first), the next request
  identifier, the invocations of callbacks performed so far, each with the coefficient
  passed, and the callbacks whose exception reached the host.
\<close>

record 'cb host =
  pending :: "nat list"
  next_handle :: nat
  invoked :: "('cb \<times> number) list"
  uncaught :: "'cb list"

datatype 'cb error = Thrown 'cb

definition Animator :: "'cb animator" where
  "Animator = \<lparr>duration = Fin 200, callbacks = [], animationStartTime = None,
               requestAnimationFrameID = None\<rparr>"

definition fresh_host :: "'cb host" where
  "fresh_host = \<lparr>pending = [], next_handle = 1, invoked = [], uncaught = []\<rparr>"

text \<open>
  \<^verbatim>\<open>window.requestAnimationFrame(this._animationFrame)\<close>: the request is queued and its
  identifier, a positive integer, is returned. Only the animator's own handler is ever
  requested, so a request is represented by its identifier.
\<close>

definition requestAnimationFrame :: "'cb host \<Rightarrow> nat \<times> 'cb host" where
  "requestAnimationFrame h =
     (next_handle h, h\<lparr>pending := pending h @ [next_handle h], next_handle := Suc (next_handle h)\<rparr>)"

definition addCallback :: "'cb \<Rightarrow> 'cb animator \<Rightarrow> 'cb animator" where
  "addCallback callback a = a\<lparr>callbacks := callbacks a @ [callback]\<rparr>"

definition setDuration :: "number \<Rightarrow> 'cb animator \<Rightarrow> 'cb animator" where
  "setDuration d a = a\<lparr>duration := d\<rparr>"

text \<open>\<^verbatim>\<open>startAnimation\<close>; \<open>now\<close> is the value \<^verbatim>\<open>Date.now()\<close> returns in it.\<close>

definition startAnimation :: "int \<Rightarrow> 'cb animator \<times> 'cb host \<Rightarrow> 'cb animator \<times> 'cb host" where
  "startAnimation now s =
     (case s of (a, h) \<Rightarrow>
        (case requestAnimationFrame h of (handle, h') \<Rightarrow>
           (a\<lparr>animationStartTime := Some now, requestAnimationFrameID := Some handle\<rparr>, h')))"

text \<open>
  \<^verbatim>\<open>Date.now() - this._animationStartTime\<close>: a difference of integers, where \<^verbatim>\<open>null\<close>
  converts to 0.
\<close>

definition elapsed :: "int \<Rightarrow> 'cb animator \<Rightarrow> int" where
  "elapsed now a = now - (case animationStartTime a of None \<Rightarrow> 0 | Some t \<Rightarrow> t)"

definition getAnimationCompletionCoefficient :: "int \<Rightarrow> 'cb animator \<Rightarrow> number" where
  "getAnimationCompletionCoefficient now a =
     (let coefficient = js_div (Fin (of_int (elapsed now a))) (duration a)
      in Math_min coefficient (Fin 1))"

text \<open>
  \<^verbatim>\<open>this._callbacks.forEach(function(callback) { callback(coefficient); })\<close>. What a
  callback does is its own business except for one thing: whether it throws, given by
  \<open>throws\<close>. An invocation is recorded before its outcome is known; an exception ends the
  loop. Callbacks do not call the animator's methods.
\<close>

fun forEach :: "('cb \<Rightarrow> number \<Rightarrow> bool) \<Rightarrow> 'cb list \<Rightarrow> number \<Rightarrow> 'cb host
    \<Rightarrow> ('cb error \<times> 'cb host) + 'cb host" where
  "forEach throws [] c h = Inr h"
| "forEach throws (callback # rest) c h =
     (if throws callback c
      then Inl (Thrown callback, h\<lparr>invoked := invoked h @ [(callback, c)]\<rparr>)
      else forEach throws rest c (h\<lparr>invoked := invoked h @ [(callback, c)]\<rparr>))"

definition afterAnimationFrame :: "number \<Rightarrow> 'cb animator \<times> 'cb host \<Rightarrow> 'cb animator \<times> 'cb host" where
  "afterAnimationFrame coefficient s =
     (case s of (a, h) \<Rightarrow>
        if strict_eq coefficient (Fin 1)
        then (a\<lparr>animationStartTime := None, requestAnimationFrameID := None\<rparr>, h)
        else (case requestAnimationFrame h of (handle, h') \<Rightarrow>
                (a\<lparr>requestAnimationFrameID := Some handle\<rparr>, h')))"

text \<open>
  \<^verbatim>\<open>_animationFrame\<close>; \<open>now\<close> is the value \<^verbatim>\<open>Date.now()\<close> returns in it. An exception of a
  callback leaves the method before \<^verbatim>\<open>_afterAnimationFrame\<close> is called.
\<close>

definition animationFrame :: "('cb \<Rightarrow> number \<Rightarrow> bool) \<Rightarrow> int \<Rightarrow> 'cb animator \<times> 'cb host
    \<Rightarrow> ('cb error \<times> 'cb animator \<times> 'cb host) + ('cb animator \<times> 'cb host)" where
  "animationFrame throws now s =
     (case s of (a, h) \<Rightarrow>
        (let coefficient = getAnimationCompletionCoefficient now a
         in case forEach throws (callbacks a) coefficient h of
              Inl (e, h') \<Rightarrow> Inl (e, a, h')
            | Inr h' \<Rightarrow> Inr (afterAnimationFrame coefficient (a, h'))))"

text \<open>
  The host dispatching a frame: the oldest pending request leaves the queue and the
  handler runs; an exception that leaves the handler is reported to the host. With no
  request pending there is nothing to dispatch.
\<close>

definition dispatchFrame :: "('cb \<Rightarrow> number \<Rightarrow> bool) \<Rightarrow> int \<Rightarrow> 'cb animator \<times> 'cb host
    \<Rightarrow> 'cb animator \<times> 'cb host" where
  "dispatchFrame throws now s =
     (case s of (a, h) \<Rightarrow>
        (case pending h of
           [] \<Rightarrow> (a, h)
         | request # others \<Rightarrow>
             (case animationFrame throws now (a, h\<lparr>pending := others\<rparr>) of
                Inl (Thrown callback, a', h') \<Rightarrow> (a', h'\<lparr>uncaught := uncaught h' @ [callback]\<rparr>)
              | Inr s' \<Rightarrow> s')))"

text \<open>What happens to an animator: calls of its three public methods, and frames.\<close>

datatype 'cb event =
    AddCallback 'cb
  | SetDuration number
  | StartAnimation int
  | Frame int

fun step :: "('cb \<Rightarrow> number \<Rightarrow> bool) \<Rightarrow> 'cb event \<Rightarrow> 'cb animator \<times> 'cb host
    \<Rightarrow> 'cb animator \<times> 'cb host" where
  "step throws (AddCallback callback) s = (addCallback callback (fst s), snd s)"
| "step throws (SetDuration d) s = (setDuration d (fst s), snd s)"
| "step throws (StartAnimation now) s = startAnimation now s"
| "step throws (Frame now) s = dispatchFrame throws now s"

fun run :: "('cb \<Rightarrow> number \<Rightarrow> bool) \<Rightarrow> 'cb event list \<Rightarrow> 'cb animator \<times> 'cb host
    \<Rightarrow> 'cb animator \<times> 'cb host" where
  "run throws [] s = s"
| "run throws (e # es) s = run throws es (step throws e s)"

text \<open>
  Observations on results: the state in which a call leaves the host, or the animator and
  the host, whether it returned or threw; and the callbacks registered by a sequence of
  events, in the order of their registration.
\<close>

definition final_host :: "('cb error \<times> 'cb host) + 'cb host \<Rightarrow> 'cb host" where
  "final_host r = (case r of Inl (e, h) \<Rightarrow> h | Inr h \<Rightarrow> h)"

definition final_state :: "('cb error \<times> 'cb animator \<times> 'cb host) + ('cb animator \<times> 'cb host)
    \<Rightarrow> 'cb animator \<times> 'cb host" where
  "final_state r = (case r of Inl (e, s) \<Rightarrow> s | Inr s \<Rightarrow> s)"

fun registered :: "'cb event list \<Rightarrow> 'cb list" where
  "registered [] = []"
| "registered (AddCallback callback # es) = callback # registered es"
| "registered (_ # es) = registered es"


text \<open>
  A sequence of events in which \<^verbatim>\<open>startAnimation\<close> is called only while the animator is
  idle (its start time is \<^verbatim>\<open>null\<close>), and the state of an idle animator with nothing
  requested or of a running one with exactly the request whose identifier it stores.
\<close>

fun starts_when_idle :: "('cb \<Rightarrow> number \<Rightarrow> bool) \<Rightarrow> 'cb event list \<Rightarrow> 'cb animator \<times> 'cb host
    \<Rightarrow> bool" where
  "starts_when_idle throws [] s = True"
| "starts_when_idle throws (StartAnimation now # es) s =
     (animationStartTime (fst s) = None \<and>
      starts_when_idle throws es (step throws (StartAnimation now) s))"
| "starts_when_idle throws (e # es) s = starts_when_idle throws es (step throws e s)"

definition run_state_inv :: "'cb animator \<times> 'cb host \<Rightarrow> bool" where
  "run_state_inv s =
     ((animationStartTime (fst s) = None) = (requestAnimationFrameID (fst s) = None) \<and>
      pending (snd s) = (case requestAnimationFrameID (fst s) of None \<Rightarrow> [] | Some r \<Rightarrow> [r]))"







section \<open>Numbers: finite values\<close>

lemma js_lt_Fin: "js_lt (Fin x) (Fin y) = (x < y)"
  by (simp add: js_lt_def)

lemma strict_eq_Fin: "strict_eq (Fin x) (Fin y) = (x = y)"
  by (simp add: strict_eq_def)

lemma js_le_Fin: "js_le (Fin x) (Fin y) = (x \<le> y)"
  by (auto simp: js_le_def js_lt_Fin strict_eq_Fin)

lemma Math_min_Fin: "Math_min (Fin x) (Fin y) = Fin (min x y)"
  by (simp add: Math_min_def js_lt_Fin min_def)

lemma js_div_Fin_pos: "0 < y \<Longrightarrow> js_div (Fin x) (Fin y) = Fin (x / y)"
  by (simp add: js_div_def is_inf_def is_zero_def)


lemmas number_defs = js_div_def is_zero_def is_inf_def Math_min_def js_lt_def js_le_def strict_eq_def

lemmas animator_defs = Animator_def fresh_host_def addCallback_def setDuration_def
  startAnimation_def requestAnimationFrame_def getAnimationCompletionCoefficient_def elapsed_def
  animationFrame_def afterAnimationFrame_def dispatchFrame_def final_state_def Let_def


section \<open>One frame\<close>

lemma coefficient_pos_duration:
  "duration a = Fin d \<Longrightarrow> 0 < d \<Longrightarrow>
   getAnimationCompletionCoefficient now a = Fin (min (of_int (elapsed now a) / d) 1)"
  by (simp add: getAnimationCompletionCoefficient_def js_div_Fin_pos Math_min_Fin)

lemma forEach_returns:
  "\<forall>cb \<in> set cbs. \<not> throws cb c \<Longrightarrow>
   forEach throws cbs c h = Inr (h\<lparr>invoked := invoked h @ map (\<lambda>cb. (cb, c)) cbs\<rparr>)"
  by (induction cbs arbitrary: h) simp_all

lemma forEach_throws:
  "k < length cbs \<Longrightarrow> throws (cbs ! k) c \<Longrightarrow> \<forall>j < k. \<not> throws (cbs ! j) c \<Longrightarrow>
   forEach throws cbs c h =
     Inl (Thrown (cbs ! k), h\<lparr>invoked := invoked h @ map (\<lambda>cb. (cb, c)) (take (Suc k) cbs)\<rparr>)"
proof (induction cbs arbitrary: h k)
  case Nil
  then show ?case by simp
next
  case (Cons x xs)
  show ?case
  proof (cases k)
    case 0
    with Cons.prems show ?thesis by simp
  next
    case (Suc m)
    with Cons.prems have nx: "\<not> throws x c" by auto
    from Suc Cons.prems have m: "m < length xs" "throws (xs ! m) c" by simp_all
    from Suc Cons.prems have "\<forall>j < m. \<not> throws (xs ! j) c" by auto
    with m have "forEach throws xs c (h\<lparr>invoked := invoked h @ [(x, c)]\<rparr>) =
      Inl (Thrown (xs ! m), (h\<lparr>invoked := invoked h @ [(x, c)]\<rparr>)
        \<lparr>invoked := invoked (h\<lparr>invoked := invoked h @ [(x, c)]\<rparr>) @ map (\<lambda>cb. (cb, c)) (take (Suc m) xs)\<rparr>)"
      by (rule Cons.IH)
    with nx Suc show ?thesis by simp
  qed
qed


lemma forEach_prefix:
  "\<exists>k \<le> length cbs. final_host (forEach throws cbs c h) =
     h\<lparr>invoked := invoked h @ map (\<lambda>cb. (cb, c)) (take k cbs)\<rparr>"
proof (induction cbs arbitrary: h)
  case Nil
  then show ?case by (simp add: final_host_def)
next
  case (Cons x xs)
  show ?case
  proof (cases "throws x c")
    case True
    then have "final_host (forEach throws (x # xs) c h) =
        h\<lparr>invoked := invoked h @ map (\<lambda>cb. (cb, c)) (take 1 (x # xs))\<rparr>"
      by (simp add: final_host_def)
    then show ?thesis by (intro exI[of _ 1]) simp
  next
    case False
    from Cons.IH[of "h\<lparr>invoked := invoked h @ [(x, c)]\<rparr>"] obtain k where
      k: "k \<le> length xs" "final_host (forEach throws xs c (h\<lparr>invoked := invoked h @ [(x, c)]\<rparr>)) =
         h\<lparr>invoked := invoked h @ (x, c) # map (\<lambda>cb. (cb, c)) (take k xs)\<rparr>" by auto
    with False show ?thesis by (intro exI[of _ "Suc k"]) simp
  qed
qed

lemma animationFrame_returns:
  "\<forall>cb \<in> set (callbacks a). \<not> throws cb (getAnimationCompletionCoefficient now a) \<Longrightarrow>
   animationFrame throws now (a, h) =
     Inr (afterAnimationFrame (getAnimationCompletionCoefficient now a)
       (a, h\<lparr>invoked := invoked h @
          map (\<lambda>cb. (cb, getAnimationCompletionCoefficient now a)) (callbacks a)\<rparr>))"
  by (simp add: animationFrame_def Let_def forEach_returns)

lemma animationFrame_throws:
  "k < length (callbacks a) \<Longrightarrow>
   throws (callbacks a ! k) (getAnimationCompletionCoefficient now a) \<Longrightarrow>
   \<forall>j < k. \<not> throws (callbacks a ! j) (getAnimationCompletionCoefficient now a) \<Longrightarrow>
   animationFrame throws now (a, h) =
     Inl (Thrown (callbacks a ! k), a,
          h\<lparr>invoked := invoked h @
            map (\<lambda>cb. (cb, getAnimationCompletionCoefficient now a)) (take (Suc k) (callbacks a))\<rparr>)"
  by (simp add: animationFrame_def Let_def forEach_throws)

lemma afterAnimationFrame_invoked:
  "invoked (snd (afterAnimationFrame c (a, h))) = invoked h"
  by (simp add: afterAnimationFrame_def requestAnimationFrame_def)

lemma animationFrame_prefix:
  "\<exists>k \<le> length (callbacks a).
     invoked (snd (final_state (animationFrame throws now (a, h)))) =
       invoked h @ map (\<lambda>cb. (cb, getAnimationCompletionCoefficient now a)) (take k (callbacks a))"
proof -
  let ?c = "getAnimationCompletionCoefficient now a"
  obtain k where k: "k \<le> length (callbacks a)"
    "final_host (forEach throws (callbacks a) ?c h) =
       h\<lparr>invoked := invoked h @ map (\<lambda>cb. (cb, ?c)) (take k (callbacks a))\<rparr>"
    using forEach_prefix by blast
  have "invoked (snd (final_state (animationFrame throws now (a, h)))) =
        invoked (final_host (forEach throws (callbacks a) ?c h))"
    by (auto simp: animationFrame_def Let_def final_state_def final_host_def
             afterAnimationFrame_invoked split: sum.splits)
  with k show ?thesis by (intro exI[of _ k]) simp
qed

lemma afterAnimationFrame_eq:
  "afterAnimationFrame c (a, h) =
     (if strict_eq c (Fin 1)
      then (a\<lparr>animationStartTime := None, requestAnimationFrameID := None\<rparr>, h)
      else (a\<lparr>requestAnimationFrameID := Some (next_handle h)\<rparr>,
            h\<lparr>pending := pending h @ [next_handle h], next_handle := Suc (next_handle h)\<rparr>))"
  by (simp add: afterAnimationFrame_def requestAnimationFrame_def)

lemma animationFrame_callbacks:
  "callbacks (fst (final_state (animationFrame throws now (a, h)))) = callbacks a"
  by (auto simp: animationFrame_def Let_def final_state_def afterAnimationFrame_eq
           split: sum.splits)

lemma dispatchFrame_callbacks: "callbacks (fst (dispatchFrame throws now s)) = callbacks (fst s)"
proof (cases s)
  case (Pair a h)
  show ?thesis
  proof (cases "pending h")
    case Nil
    with Pair show ?thesis by (simp add: dispatchFrame_def)
  next
    case (Cons request others)
    with Pair animationFrame_callbacks[of throws now a "h\<lparr>pending := others\<rparr>"]
    show ?thesis
      by (auto simp: dispatchFrame_def final_state_def split: sum.splits error.splits)
  qed
qed

lemma step_callbacks:
  "callbacks (fst (step throws e s)) = callbacks (fst s) @ registered [e]"
  by (cases e) (simp_all add: addCallback_def setDuration_def startAnimation_def
        dispatchFrame_callbacks split: prod.splits)

lemma registered_Cons: "registered (e # es) = registered [e] @ registered es"
  by (cases e) simp_all

lemma run_callbacks: "callbacks (fst (run throws es s)) = callbacks (fst s) @ registered es"
proof (induction es arbitrary: s)
  case Nil
  show ?case by simp
next
  case (Cons e es)
  have "callbacks (fst (run throws (e # es) s)) = (callbacks (fst s) @ registered [e]) @ registered es"
    by (simp add: Cons.IH step_callbacks)
  then show ?case using registered_Cons[of e es] by simp
qed


section \<open>The configuration methods\<close>

text \<open>
  Claim C10. \<^verbatim>\<open>addCallback\<close> changes only the list of callbacks, to which it appends its
  argument as the last element; \<^verbatim>\<open>setDuration\<close> changes only the duration. Neither touches
  the start time, the request identifier, the other method's field or the host, in any
  state.
\<close>

theorem configuration_frame_condition:
  "step throws (AddCallback callback) (a, h) = (a\<lparr>callbacks := callbacks a @ [callback]\<rparr>, h) \<and>
   step throws (SetDuration d) (a, h) = (a\<lparr>duration := d\<rparr>, h) \<and>
   callbacks (addCallback callback a) = callbacks a @ [callback] \<and>
   duration (addCallback callback a) = duration a \<and>
   animationStartTime (addCallback callback a) = animationStartTime a \<and>
   requestAnimationFrameID (addCallback callback a) = requestAnimationFrameID a \<and>
   duration (setDuration d a) = d \<and>
   callbacks (setDuration d a) = callbacks a \<and>
   animationStartTime (setDuration d a) = animationStartTime a \<and>
   requestAnimationFrameID (setDuration d a) = requestAnimationFrameID a"
  by (simp add: addCallback_def setDuration_def)


section \<open>Dispatch of the callbacks\<close>

text \<open>
  Claim C6. After any sequence of events on a new animator, the list of callbacks is the
  list of the callbacks registered, in the order of registration and with duplicates. A
  frame computes the coefficient once and invokes the callbacks in that order, each with
  that coefficient: the invocations of the frame are those of a prefix of the list, and of
  the whole list, each callback once, when no callback throws.
\<close>

theorem per_frame_dispatch:
  "(let s = run throws es (Animator, fresh_host);
        c = getAnimationCompletionCoefficient now (fst s);
        r = animationFrame throws now s
    in callbacks (fst s) = registered es \<and>
       (\<exists>k \<le> length (registered es).
          invoked (snd (final_state r)) = invoked (snd s) @ map (\<lambda>cb. (cb, c)) (take k (registered es))) \<and>
       ((\<forall>cb \<in> set (registered es). \<not> throws cb c) \<longrightarrow>
          (\<exists>s'. r = Inr s' \<and>
             invoked (snd s') = invoked (snd s) @ map (\<lambda>cb. (cb, c)) (registered es))))"
proof -
  obtain a h where s: "run throws es (Animator, fresh_host) = (a, h)"
    by (cases "run throws es (Animator, fresh_host)")
  have cbs: "callbacks a = registered es"
    using run_callbacks[of throws es "(Animator, fresh_host)"] s by (simp add: Animator_def)
  have pre: "\<exists>k \<le> length (registered es).
     invoked (snd (final_state (animationFrame throws now (a, h)))) =
       invoked h @ map (\<lambda>cb. (cb, getAnimationCompletionCoefficient now a)) (take k (registered es))"
    using animationFrame_prefix[of a throws now h] cbs by simp
  have full: "(\<forall>cb \<in> set (registered es). \<not> throws cb (getAnimationCompletionCoefficient now a)) \<longrightarrow>
     (\<exists>s'. animationFrame throws now (a, h) = Inr s' \<and>
        invoked (snd s') = invoked h @
          map (\<lambda>cb. (cb, getAnimationCompletionCoefficient now a)) (registered es))"
    using animationFrame_returns[of a throws now h] cbs
    by (simp add: afterAnimationFrame_invoked)
  show ?thesis using s cbs pre full by (simp add: Let_def)
qed

theorem per_frame_dispatch_witness:
  "registered [AddCallback (0::nat), AddCallback 1, AddCallback 0, StartAnimation 1000] = [0, 1, 0] \<and>
   (\<exists>s'. animationFrame (\<lambda>cb c. False) 1100
       (run (\<lambda>cb c. False) [AddCallback (0::nat), AddCallback 1, AddCallback 0, StartAnimation 1000]
          (Animator, fresh_host)) = Inr s' \<and>
      invoked (snd s') = [(0, Fin (1/2)), (1, Fin (1/2)), (0, Fin (1/2))])"
  using per_frame_dispatch [of "\<lambda>cb c. False"
      "[AddCallback (0::nat), AddCallback 1, AddCallback 0, StartAnimation 1000]" 1100]
  by (simp add: animator_defs number_defs)


text \<open>
  Claim C9. When the callback at position \<open>k\<close> is the first to throw in a frame, the
  exception leaves \<^verbatim>\<open>_animationFrame\<close>: the callbacks up to position \<open>k\<close> have been invoked
  and no later one, no frame has been requested, and the animator is as it was when the
  frame began, start time and request identifier included. The host, which had taken the
  request of this frame from its queue, gets the exception.
\<close>

theorem callback_exception_propagates:
  "k < length (callbacks a) \<Longrightarrow>
   throws (callbacks a ! k) (getAnimationCompletionCoefficient now a) \<Longrightarrow>
   \<forall>j < k. \<not> throws (callbacks a ! j) (getAnimationCompletionCoefficient now a) \<Longrightarrow>
   animationFrame throws now (a, h) =
     Inl (Thrown (callbacks a ! k), a,
          h\<lparr>invoked := invoked h @
            map (\<lambda>cb. (cb, getAnimationCompletionCoefficient now a)) (take (Suc k) (callbacks a))\<rparr>) \<and>
   (\<forall>request others. pending h = request # others \<longrightarrow>
      dispatchFrame throws now (a, h) =
        (a, h\<lparr>pending := others,
              invoked := invoked h @
                map (\<lambda>cb. (cb, getAnimationCompletionCoefficient now a)) (take (Suc k) (callbacks a)),
              uncaught := uncaught h @ [callbacks a ! k]\<rparr>))"
  by (simp add: dispatchFrame_def animationFrame_throws)

theorem callback_exception_propagates_witness:
  "(1::nat) < length (callbacks (fst (run (\<lambda>cb c. cb = 1) [AddCallback (0::nat), AddCallback 1, AddCallback 2, StartAnimation 1000] (Animator, fresh_host)))) \<and>
   dispatchFrame (\<lambda>cb c. cb = 1) 1100
     (run (\<lambda>cb c. cb = 1) [AddCallback (0::nat), AddCallback 1, AddCallback 2, StartAnimation 1000]
        (Animator, fresh_host)) =
   (\<lparr>duration = Fin 200, callbacks = [0, 1, 2], animationStartTime = Some 1000,
      requestAnimationFrameID = Some 1\<rparr>,
    \<lparr>pending = [], next_handle = 2, invoked = [(0, Fin (1/2)), (1, Fin (1/2))], uncaught = [1]\<rparr>)"
  using callback_exception_propagates [of 1
      "\<lparr>duration = Fin 200, callbacks = [0::nat, 1, 2], animationStartTime = Some 1000,
        requestAnimationFrameID = Some 1\<rparr>"
      "\<lambda>cb c. cb = 1" 1100
      "\<lparr>pending = [1], next_handle = 2, invoked = [], uncaught = []\<rparr>"]
  by (simp add: animator_defs number_defs)


section \<open>Starting while running\<close>





section \<open>The coefficient of completion\<close>

lemma positive_duration_cases:
  "js_lt (Fin 0) n \<Longrightarrow> js_le n (Fin e) \<Longrightarrow> \<exists>d. n = Fin d \<and> 0 < d \<and> d \<le> e"
  by (cases n) (auto simp: js_lt_def js_le_def strict_eq_def)

lemma animationFrame_final_host:
  "strict_eq (getAnimationCompletionCoefficient now a) (Fin 1) \<Longrightarrow>
   snd (final_state (animationFrame throws now (a, h))) =
     final_host (forEach throws (callbacks a) (getAnimationCompletionCoefficient now a) h)"
  by (auto simp: animationFrame_def Let_def final_state_def final_host_def afterAnimationFrame_eq
           split: sum.splits)

lemma dispatchFrame_eq:
  "pending h = request # others \<Longrightarrow>
   dispatchFrame throws now (a, h) =
     (case animationFrame throws now (a, h\<lparr>pending := others\<rparr>) of
        Inl (Thrown callback, a', h') \<Rightarrow> (a', h'\<lparr>uncaught := uncaught h' @ [callback]\<rparr>)
      | Inr s' \<Rightarrow> s')"
  by (simp add: dispatchFrame_def)

text \<open>
  Claim C1. In a run whose duration is positive, a frame whose clock reading satisfies
  \<^verbatim>\<open>now - animationStartTime >= duration\<close> computes the coefficient 1 exactly. Every
  invocation of the frame passes 1; the frame requests no further frame, so the queue of
  the host is as the dispatch of this frame left it; and when the callbacks have all
  returned, the start time and the request identifier are \<^verbatim>\<open>null\<close>.
\<close>

theorem completion_exactness:
  "animationStartTime a = Some t0 \<Longrightarrow> js_lt (Fin 0) (duration a) \<Longrightarrow>
   js_le (duration a) (Fin (of_int (now - t0))) \<Longrightarrow>
   getAnimationCompletionCoefficient now a = Fin 1 \<and>
   (\<exists>k \<le> length (callbacks a).
      snd (final_state (animationFrame throws now (a, h))) =
        h\<lparr>invoked := invoked h @ map (\<lambda>cb. (cb, Fin 1)) (take k (callbacks a))\<rparr>) \<and>
   ((\<forall>cb \<in> set (callbacks a). \<not> throws cb (Fin 1)) \<longrightarrow>
      animationFrame throws now (a, h) =
        Inr (a\<lparr>animationStartTime := None, requestAnimationFrameID := None\<rparr>,
             h\<lparr>invoked := invoked h @ map (\<lambda>cb. (cb, Fin 1)) (callbacks a)\<rparr>))"
proof -
  assume start: "animationStartTime a = Some t0" and pos: "js_lt (Fin 0) (duration a)"
    and reached: "js_le (duration a) (Fin (of_int (now - t0)))"
  from pos reached obtain d where d: "duration a = Fin d" "0 < d" "d \<le> of_int (now - t0)"
    using positive_duration_cases by blast
  have el: "elapsed now a = now - t0" using start by (simp add: elapsed_def)
  from d have "1 \<le> of_int (now - t0) / d" by (simp add: le_divide_eq)
  then have c: "getAnimationCompletionCoefficient now a = Fin 1"
    using coefficient_pos_duration[OF d(1) d(2), of now] el by (simp add: min_def)
  have prefix: "\<exists>k \<le> length (callbacks a).
      snd (final_state (animationFrame throws now (a, h))) =
        h\<lparr>invoked := invoked h @ map (\<lambda>cb. (cb, Fin 1)) (take k (callbacks a))\<rparr>"
    using animationFrame_final_host[of now a throws h] forEach_prefix[of "callbacks a" throws "Fin 1" h] c
    by (simp add: strict_eq_Fin)
  have full: "(\<forall>cb \<in> set (callbacks a). \<not> throws cb (Fin 1)) \<longrightarrow>
      animationFrame throws now (a, h) =
        Inr (a\<lparr>animationStartTime := None, requestAnimationFrameID := None\<rparr>,
             h\<lparr>invoked := invoked h @ map (\<lambda>cb. (cb, Fin 1)) (callbacks a)\<rparr>)"
    using animationFrame_returns[of a throws now h] c
    by (simp add: afterAnimationFrame_eq strict_eq_Fin)
  from c prefix full show ?thesis by blast
qed

theorem completion_exactness_witness:
  "getAnimationCompletionCoefficient 1101
     \<lparr>duration = Fin 100, callbacks = [0::nat, 1], animationStartTime = Some 1000,
      requestAnimationFrameID = Some 7\<rparr> = Fin 1 \<and>
   animationFrame (\<lambda>cb c. False) 1101
     (\<lparr>duration = Fin 100, callbacks = [0::nat, 1], animationStartTime = Some 1000,
       requestAnimationFrameID = Some 7\<rparr>,
      \<lparr>pending = [], next_handle = 8, invoked = [], uncaught = []\<rparr>) =
   Inr (\<lparr>duration = Fin 100, callbacks = [0, 1], animationStartTime = None,
         requestAnimationFrameID = None\<rparr>,
        \<lparr>pending = [], next_handle = 8, invoked = [(0, Fin 1), (1, Fin 1)], uncaught = []\<rparr>)"
  using completion_exactness [of
      "\<lparr>duration = Fin 100, callbacks = [0::nat, 1], animationStartTime = Some 1000,
        requestAnimationFrameID = Some 7\<rparr>" 1000 1101 "\<lambda>cb c. False"
      "\<lparr>pending = [], next_handle = 8, invoked = [], uncaught = []\<rparr>"]
  by (simp add: js_lt_Fin js_le_Fin)




section \<open>Frames dispatched by the host\<close>

lemma dispatchFrame_idle: "pending h = [] \<Longrightarrow> dispatchFrame throws now (a, h) = (a, h)"
  by (simp add: dispatchFrame_def)

lemma dispatchFrame_returns:
  "pending h = request # others \<Longrightarrow>
   \<forall>cb \<in> set (callbacks a). \<not> throws cb (getAnimationCompletionCoefficient now a) \<Longrightarrow>
   dispatchFrame throws now (a, h) =
     afterAnimationFrame (getAnimationCompletionCoefficient now a)
       (a, h\<lparr>pending := others,
              invoked := invoked h @
                map (\<lambda>cb. (cb, getAnimationCompletionCoefficient now a)) (callbacks a)\<rparr>)"
  using animationFrame_returns[of a throws now "h\<lparr>pending := others\<rparr>"]
  by (simp add: dispatchFrame_eq)

lemma dispatchFrame_summary:
  assumes "pending h = request # others"
  shows "\<exists>k \<le> length (callbacks a).
     invoked (snd (dispatchFrame throws now (a, h))) =
       invoked h @ map (\<lambda>cb. (cb, getAnimationCompletionCoefficient now a)) (take k (callbacks a)) \<and>
     duration (fst (dispatchFrame throws now (a, h))) = duration a \<and>
     callbacks (fst (dispatchFrame throws now (a, h))) = callbacks a \<and>
     (pending (snd (dispatchFrame throws now (a, h))) = others \<or>
      (pending (snd (dispatchFrame throws now (a, h))) = others @ [next_handle h] \<and>
       animationStartTime (fst (dispatchFrame throws now (a, h))) = animationStartTime a))"
proof -
  let ?c = "getAnimationCompletionCoefficient now a"
  let ?h = "h\<lparr>pending := others\<rparr>"
  obtain k where k: "k \<le> length (callbacks a)"
    "final_host (forEach throws (callbacks a) ?c ?h) =
       ?h\<lparr>invoked := invoked ?h @ map (\<lambda>cb. (cb, ?c)) (take k (callbacks a))\<rparr>"
    using forEach_prefix by blast
  show ?thesis
  proof (cases "forEach throws (callbacks a) ?c ?h")
    case (Inl p)
    obtain cb h' where p: "p = (Thrown cb, h')" by (cases p) (metis error.exhaust)
    with Inl k have h': "h' = ?h\<lparr>invoked := invoked ?h @ map (\<lambda>cb. (cb, ?c)) (take k (callbacks a))\<rparr>"
      by (simp add: final_host_def)
    have "dispatchFrame throws now (a, h) = (a, h'\<lparr>uncaught := uncaught h' @ [cb]\<rparr>)"
      using assms Inl p by (simp add: dispatchFrame_eq animationFrame_def Let_def)
    with h' k(1) show ?thesis by (intro exI[of _ k]) simp
  next
    case (Inr h')
    with k have h': "h' = ?h\<lparr>invoked := invoked ?h @ map (\<lambda>cb. (cb, ?c)) (take k (callbacks a))\<rparr>"
      by (simp add: final_host_def)
    have "dispatchFrame throws now (a, h) = afterAnimationFrame ?c (a, h')"
      using assms Inr by (simp add: dispatchFrame_eq animationFrame_def Let_def)
    with h' k(1) show ?thesis by (intro exI[of _ k]) (simp add: afterAnimationFrame_eq)
  qed
qed


section \<open>Changing the duration\<close>





section \<open>The run state\<close>

lemma run_state_inv_start:
  "run_state_inv s \<Longrightarrow> animationStartTime (fst s) = None \<Longrightarrow>
   run_state_inv (startAnimation now s)"
  by (cases s) (simp add: run_state_inv_def startAnimation_def requestAnimationFrame_def)

lemma run_state_inv_frame:
  assumes inv: "run_state_inv s" and quiet: "\<forall>cb c. \<not> throws cb c"
  shows "run_state_inv (dispatchFrame throws now s)"
proof (cases s)
  case (Pair a h)
  show ?thesis
  proof (cases "requestAnimationFrameID a")
    case None
    with inv Pair have "pending h = []" by (simp add: run_state_inv_def)
    with inv Pair show ?thesis by (simp add: dispatchFrame_idle)
  next
    case (Some r)
    with inv Pair have p: "pending h = [r]" and st: "animationStartTime a \<noteq> None"
      by (simp_all add: run_state_inv_def)
    have "dispatchFrame throws now (a, h) =
      afterAnimationFrame (getAnimationCompletionCoefficient now a)
        (a, h\<lparr>pending := [],
              invoked := invoked h @
                map (\<lambda>cb. (cb, getAnimationCompletionCoefficient now a)) (callbacks a)\<rparr>)"
      using dispatchFrame_returns[OF p, of a throws now] quiet by simp
    with Pair st show ?thesis
      by (simp add: run_state_inv_def afterAnimationFrame_eq)
  qed
qed

lemma run_state_inv_step:
  assumes "run_state_inv s" "\<forall>cb c. \<not> throws cb c" "starts_when_idle throws [e] s"
  shows "run_state_inv (step throws e s)"
proof (cases e)
  case (AddCallback cb)
  with assms(1) show ?thesis by (simp add: run_state_inv_def addCallback_def)
next
  case (SetDuration d)
  with assms(1) show ?thesis by (simp add: run_state_inv_def setDuration_def)
next
  case (StartAnimation now)
  with assms(1,3) show ?thesis by (simp add: run_state_inv_start)
next
  case (Frame now)
  with assms(1,2) show ?thesis by (simp add: run_state_inv_frame)
qed

lemma starts_when_idle_Cons:
  "starts_when_idle throws (e # es) s =
     (starts_when_idle throws [e] s \<and> starts_when_idle throws es (step throws e s))"
  by (cases e) simp_all

lemma run_state_inv_run:
  "run_state_inv s \<Longrightarrow> \<forall>cb c. \<not> throws cb c \<Longrightarrow> starts_when_idle throws es s \<Longrightarrow>
   run_state_inv (run throws es s)"
proof (induction es arbitrary: s)
  case Nil
  then show ?case by simp
next
  case (Cons e es)
  from Cons.prems(3) have e: "starts_when_idle throws [e] s"
    and es: "starts_when_idle throws es (step throws e s)"
    using starts_when_idle_Cons[of throws e es s] by simp_all
  have "run_state_inv (step throws e s)"
    using Cons.prems(1,2) e by (rule run_state_inv_step)
  then have "run_state_inv (run throws es (step throws e s))"
    using Cons.prems(2) es by (rule Cons.IH)
  then show ?case by simp
qed

lemma run_state_inv_init: "run_state_inv (Animator, fresh_host)"
  by (simp add: run_state_inv_def Animator_def fresh_host_def)

text \<open>
  Claim C4 says that in every reachable state the start time is set exactly when a frame
  request is pending, the two fields being set and cleared together. The source does not
  keep \<^verbatim>\<open>startAnimation\<close> from being called while running and cancels no request: after
  two starts the frame that completes clears the start time while the request of the
  other start is still pending, and when that stale frame does not compute 1 (the
  duration has been raised) it stores a new request identifier beside a \<^verbatim>\<open>null\<close> start
  time. A callback that throws leaves the start time set with no request pending.
\<close>

theorem run_state_counterexample:
  "animationStartTime (fst (run (\<lambda>cb c. False)
      [StartAnimation 1000, StartAnimation 1010, Frame 1300]
      (Animator :: nat animator, fresh_host))) = None \<and>
   pending (snd (run (\<lambda>cb c. False)
      [StartAnimation 1000, StartAnimation 1010, Frame 1300]
      (Animator :: nat animator, fresh_host))) = [2] \<and>
   animationStartTime (fst (run (\<lambda>cb c. False)
      [StartAnimation 1000, StartAnimation 1010, Frame 1300, SetDuration (Fin 10000000), Frame 1400]
      (Animator :: nat animator, fresh_host))) = None \<and>
   requestAnimationFrameID (fst (run (\<lambda>cb c. False)
      [StartAnimation 1000, StartAnimation 1010, Frame 1300, SetDuration (Fin 10000000), Frame 1400]
      (Animator :: nat animator, fresh_host))) = Some 3 \<and>
   animationStartTime (fst (run (\<lambda>cb c. True)
      [AddCallback (0::nat), StartAnimation 1000, Frame 1100]
      (Animator, fresh_host))) = Some 1000 \<and>
   pending (snd (run (\<lambda>cb c. True)
      [AddCallback (0::nat), StartAnimation 1000, Frame 1100]
      (Animator, fresh_host))) = []"
  by (simp add: animator_defs number_defs)

text \<open>
  Claim C4 as amended: in every state reached from a new animator by calls of
  \<^verbatim>\<open>addCallback\<close> and \<^verbatim>\<open>setDuration\<close>, calls of \<^verbatim>\<open>startAnimation\<close> made while idle, and
  frames in which no callback throws, the start time is set if and only if a frame
  request is pending, and if and only if the request identifier is set; the pending
  request is then the one whose identifier is stored. \<^verbatim>\<open>startAnimation\<close> sets both fields
  and the frame on which the coefficient equals 1 clears both.
\<close>

theorem run_state_invariant:
  "\<forall>cb c. \<not> throws cb c \<Longrightarrow> starts_when_idle throws es (Animator, fresh_host) \<Longrightarrow>
   ((animationStartTime (fst (run throws es (Animator, fresh_host))) \<noteq> None) =
    (pending (snd (run throws es (Animator, fresh_host))) \<noteq> [])) \<and>
   ((animationStartTime (fst (run throws es (Animator, fresh_host))) \<noteq> None) =
    (requestAnimationFrameID (fst (run throws es (Animator, fresh_host))) \<noteq> None)) \<and>
   (\<forall>r. requestAnimationFrameID (fst (run throws es (Animator, fresh_host))) = Some r \<longrightarrow>
        pending (snd (run throws es (Animator, fresh_host))) = [r]) \<and>
   (\<forall>now s. animationStartTime (fst (startAnimation now s)) = Some now \<and>
        requestAnimationFrameID (fst (startAnimation now s)) = Some (next_handle (snd s))) \<and>
   (\<forall>c a h. strict_eq c (Fin 1) \<longrightarrow>
        afterAnimationFrame c (a, h) =
          (a\<lparr>animationStartTime := None, requestAnimationFrameID := None\<rparr>, h))"
proof -
  assume quiet: "\<forall>cb c. \<not> throws cb c" and idle: "starts_when_idle throws es (Animator, fresh_host)"
  let ?s = "run throws es (Animator, fresh_host)"
  have inv: "run_state_inv ?s"
    using run_state_inv_init quiet idle by (rule run_state_inv_run)
  have 1: "(animationStartTime (fst ?s) \<noteq> None) = (pending (snd ?s) \<noteq> [])"
    using inv by (auto simp: run_state_inv_def split: option.splits)
  have 2: "(animationStartTime (fst ?s) \<noteq> None) = (requestAnimationFrameID (fst ?s) \<noteq> None)"
    using inv by (auto simp: run_state_inv_def)
  have 3: "\<forall>r. requestAnimationFrameID (fst ?s) = Some r \<longrightarrow> pending (snd ?s) = [r]"
    using inv by (auto simp: run_state_inv_def)
  have 4: "\<forall>now s. animationStartTime (fst (startAnimation now s)) = Some now \<and>
        requestAnimationFrameID (fst (startAnimation now s)) = Some (next_handle (snd s))"
    by (simp add: startAnimation_def requestAnimationFrame_def split: prod.splits)
  have 5: "\<forall>c a h. strict_eq c (Fin 1) \<longrightarrow>
        afterAnimationFrame c (a, h) =
          (a\<lparr>animationStartTime := None, requestAnimationFrameID := None\<rparr>, h)"
    by (simp add: afterAnimationFrame_eq)
  from 1 2 3 4 5 show ?thesis by blast
qed

theorem run_state_invariant_witness:
  "starts_when_idle (\<lambda>cb c. False)
     [AddCallback (0::nat), StartAnimation 1000, Frame 1100, SetDuration (Fin 100), Frame 1150,
      StartAnimation 2000, AddCallback 1]
     (Animator, fresh_host) \<and>
   animationStartTime (fst (run (\<lambda>cb c. False)
     [AddCallback (0::nat), StartAnimation 1000, Frame 1100, SetDuration (Fin 100), Frame 1150,
      StartAnimation 2000, AddCallback 1]
     (Animator, fresh_host))) \<noteq> None \<and>
   pending (snd (run (\<lambda>cb c. False)
     [AddCallback (0::nat), StartAnimation 1000, Frame 1100, SetDuration (Fin 100), Frame 1150,
      StartAnimation 2000, AddCallback 1]
     (Animator, fresh_host))) = [3]"
proof -
  have idle: "starts_when_idle (\<lambda>cb c. False)
     [AddCallback (0::nat), StartAnimation 1000, Frame 1100, SetDuration (Fin 100), Frame 1150,
      StartAnimation 2000, AddCallback 1]
     (Animator, fresh_host)"
    by (simp add: animator_defs number_defs)
  have id: "requestAnimationFrameID (fst (run (\<lambda>cb c. False)
     [AddCallback (0::nat), StartAnimation 1000, Frame 1100, SetDuration (Fin 100), Frame 1150,
      StartAnimation 2000, AddCallback 1]
     (Animator, fresh_host))) = Some 3"
    by (simp add: animator_defs number_defs)
  have quiet: "\<forall>cb c. \<not> (\<lambda>(cb::nat) (c::number). False) cb c" by simp
  note inv = run_state_invariant [OF quiet idle]
  note fields = inv [THEN conjunct2, THEN conjunct1]
  note queue = inv [THEN conjunct2, THEN conjunct2, THEN conjunct1, rule_format, OF id]
  from fields have "animationStartTime (fst (run (\<lambda>cb c. False)
     [AddCallback (0::nat), StartAnimation 1000, Frame 1100, SetDuration (Fin 100), Frame 1150,
      StartAnimation 2000, AddCallback 1]
     (Animator, fresh_host))) \<noteq> None"
    unfolding id by blast
  with queue idle show ?thesis by blast
qed


section \<open>Registration during a run\<close>

lemma registered_append: "registered (es @ es') = registered es @ registered es'"
proof (induction es)
  case Nil
  show ?case by simp
next
  case (Cons e es)
  then show ?case using registered_Cons[of e "es @ es'"] registered_Cons[of e es] by simp
qed

lemma forEach_reaches:
  "\<forall>x \<in> set xs. \<not> throws x c \<Longrightarrow>
   \<exists>later. invoked (final_host (forEach throws (xs @ cb # ys) c h)) =
     invoked h @ map (\<lambda>x. (x, c)) xs @ (cb, c) # later"
proof (induction xs arbitrary: h)
  case Nil
  show ?case
  proof (cases "throws cb c")
    case True
    then show ?thesis by (simp add: final_host_def)
  next
    case False
    obtain k where "final_host (forEach throws ys c (h\<lparr>invoked := invoked h @ [(cb, c)]\<rparr>)) =
        (h\<lparr>invoked := invoked h @ [(cb, c)]\<rparr>)
          \<lparr>invoked := invoked (h\<lparr>invoked := invoked h @ [(cb, c)]\<rparr>) @
             map (\<lambda>x. (x, c)) (take k ys)\<rparr>"
      using forEach_prefix by blast
    with False show ?thesis by simp
  qed
next
  case (Cons x xs)
  then have "\<not> throws x c" and rest: "\<forall>x \<in> set xs. \<not> throws x c" by simp_all
  from Cons.IH[OF rest, of "h\<lparr>invoked := invoked h @ [(x, c)]\<rparr>"] \<open>\<not> throws x c\<close>
  show ?case by simp
qed

lemma dispatchFrame_invoked:
  assumes "pending h = request # others"
  shows "invoked (snd (dispatchFrame throws now (a, h))) =
     invoked (final_host (forEach throws (callbacks a)
        (getAnimationCompletionCoefficient now a) (h\<lparr>pending := others\<rparr>)))"
proof (cases "forEach throws (callbacks a) (getAnimationCompletionCoefficient now a)
    (h\<lparr>pending := others\<rparr>)")
  case (Inl p)
  obtain cb h' where "p = (Thrown cb, h')" by (cases p) (metis error.exhaust)
  with assms Inl show ?thesis
    by (simp add: dispatchFrame_eq animationFrame_def Let_def final_host_def)
next
  case (Inr h')
  with assms show ?thesis
    by (simp add: dispatchFrame_eq animationFrame_def Let_def final_host_def
          afterAnimationFrame_eq)
qed

lemma step_invoked_registered:
  assumes "fst ` set (invoked (snd s)) \<subseteq> set (callbacks (fst s))"
  shows "fst ` set (invoked (snd (step throws e s))) \<subseteq> set (callbacks (fst (step throws e s)))"
proof (cases s)
  case (Pair a h)
  show ?thesis
  proof (cases e)
    case (AddCallback cb)
    with assms Pair show ?thesis by (auto simp: addCallback_def)
  next
    case (SetDuration d)
    with assms Pair show ?thesis by (simp add: setDuration_def)
  next
    case (StartAnimation now)
    with assms Pair show ?thesis by (simp add: startAnimation_def requestAnimationFrame_def)
  next
    case (Frame now)
    show ?thesis
    proof (cases "pending h")
      case Nil
      with assms Pair Frame show ?thesis by (simp add: dispatchFrame_idle)
    next
      case (Cons request others)
      from dispatchFrame_summary[OF Cons, of a throws now] obtain k where
        "invoked (snd (dispatchFrame throws now (a, h))) =
           invoked h @ map (\<lambda>cb. (cb, getAnimationCompletionCoefficient now a)) (take k (callbacks a))"
        "callbacks (fst (dispatchFrame throws now (a, h))) = callbacks a"
        by blast
      with assms Pair Frame show ?thesis
        by (auto simp: image_Un image_image dest: in_set_takeD)
    qed
  qed
qed

lemma run_invoked_registered:
  "fst ` set (invoked (snd s)) \<subseteq> set (callbacks (fst s)) \<Longrightarrow>
   fst ` set (invoked (snd (run throws es s))) \<subseteq> set (callbacks (fst (run throws es s)))"
proof (induction es arbitrary: s)
  case Nil
  then show ?case by simp
next
  case (Cons e es)
  from step_invoked_registered[OF Cons.prems, of throws e]
  have "fst ` set (invoked (snd (run throws es (step throws e s)))) \<subseteq>
        set (callbacks (fst (run throws es (step throws e s))))"
    by (rule Cons.IH)
  then show ?case by simp
qed

text \<open>
  Claim C8. A callback that has not been registered before receives nothing from the
  frames dispatched before its registration: no invocation recorded so far is one of it.
  Once it is registered, at any later point of the run, every frame the host dispatches
  invokes it with the coefficient of that frame, after the callbacks registered before
  it, provided none of those throws in that frame.
\<close>

theorem late_registration:
  "cb \<notin> set (registered es1) \<Longrightarrow>
   (\<forall>c. (cb, c) \<notin> set (invoked (snd (run throws es1 (Animator, fresh_host))))) \<and>
   (\<forall>es2 now.
      pending (snd (run throws (es1 @ AddCallback cb # es2) (Animator, fresh_host))) \<noteq> [] \<and>
      (\<forall>x \<in> set (registered es1). \<not> throws x (getAnimationCompletionCoefficient now
          (fst (run throws (es1 @ AddCallback cb # es2) (Animator, fresh_host))))) \<longrightarrow>
      (cb, getAnimationCompletionCoefficient now
          (fst (run throws (es1 @ AddCallback cb # es2) (Animator, fresh_host))))
        \<in> set (drop
            (length (invoked (snd (run throws (es1 @ AddCallback cb # es2) (Animator, fresh_host)))))
            (invoked (snd (step throws (Frame now)
               (run throws (es1 @ AddCallback cb # es2) (Animator, fresh_host)))))))"
proof -
  assume new: "cb \<notin> set (registered es1)"
  have before: "\<forall>c. (cb, c) \<notin> set (invoked (snd (run throws es1 (Animator, fresh_host))))"
  proof -
    have "fst ` set (invoked (snd (run throws es1 (Animator, fresh_host)))) \<subseteq>
          set (callbacks (fst (run throws es1 (Animator, fresh_host))))"
      by (rule run_invoked_registered) (simp add: fresh_host_def)
    also have "\<dots> = set (registered es1)"
      using run_callbacks[of throws es1 "(Animator, fresh_host)"] by (simp add: Animator_def)
    finally show ?thesis using new by force
  qed
  have after: "\<And>es2 now.
      pending (snd (run throws (es1 @ AddCallback cb # es2) (Animator, fresh_host))) \<noteq> [] \<Longrightarrow>
      \<forall>x \<in> set (registered es1). \<not> throws x (getAnimationCompletionCoefficient now
          (fst (run throws (es1 @ AddCallback cb # es2) (Animator, fresh_host)))) \<Longrightarrow>
      (cb, getAnimationCompletionCoefficient now
          (fst (run throws (es1 @ AddCallback cb # es2) (Animator, fresh_host))))
        \<in> set (drop
            (length (invoked (snd (run throws (es1 @ AddCallback cb # es2) (Animator, fresh_host)))))
            (invoked (snd (step throws (Frame now)
               (run throws (es1 @ AddCallback cb # es2) (Animator, fresh_host))))))"
  proof -
    fix es2 now
    obtain a h where s: "run throws (es1 @ AddCallback cb # es2) (Animator, fresh_host) = (a, h)"
      by (cases "run throws (es1 @ AddCallback cb # es2) (Animator, fresh_host)")
    let ?c = "getAnimationCompletionCoefficient now a"
    assume "pending (snd (run throws (es1 @ AddCallback cb # es2) (Animator, fresh_host))) \<noteq> []"
      and "\<forall>x \<in> set (registered es1). \<not> throws x (getAnimationCompletionCoefficient now
          (fst (run throws (es1 @ AddCallback cb # es2) (Animator, fresh_host))))"
    with s have pend: "pending h \<noteq> []"
      and quiet: "\<forall>x \<in> set (registered es1). \<not> throws x ?c" by simp_all
    from pend obtain request others where p: "pending h = request # others"
      by (cases "pending h") simp_all
    have cbs: "callbacks a = registered es1 @ cb # registered es2"
      using run_callbacks[of throws "es1 @ AddCallback cb # es2" "(Animator, fresh_host)"] s
      by (simp add: Animator_def registered_append)
    obtain later where "invoked (final_host (forEach throws (registered es1 @ cb # registered es2)
          ?c (h\<lparr>pending := others\<rparr>))) =
        invoked (h\<lparr>pending := others\<rparr>) @ map (\<lambda>x. (x, ?c)) (registered es1) @ (cb, ?c) # later"
      using forEach_reaches[of "registered es1" throws ?c cb "registered es2" "h\<lparr>pending := others\<rparr>"]
        quiet by blast
    then have "invoked (snd (dispatchFrame throws now (a, h))) =
        invoked h @ map (\<lambda>x. (x, ?c)) (registered es1) @ (cb, ?c) # later"
      using dispatchFrame_invoked[OF p, of throws now a] cbs by simp
    then have "(cb, ?c) \<in> set (drop (length (invoked h)) (invoked (snd (dispatchFrame throws now (a, h)))))"
      by simp
    with s show "(cb, getAnimationCompletionCoefficient now
          (fst (run throws (es1 @ AddCallback cb # es2) (Animator, fresh_host))))
        \<in> set (drop
            (length (invoked (snd (run throws (es1 @ AddCallback cb # es2) (Animator, fresh_host)))))
            (invoked (snd (step throws (Frame now)
               (run throws (es1 @ AddCallback cb # es2) (Animator, fresh_host))))))"
      by simp
  qed
  from before after show ?thesis by blast
qed

theorem late_registration_witness:
  "(7::nat) \<notin> set (registered [AddCallback 0, StartAnimation 1000, Frame 1050]) \<and>
   invoked (snd (run (\<lambda>cb c. False) [AddCallback (0::nat), StartAnimation 1000, Frame 1050]
      (Animator, fresh_host))) = [(0, Fin (1/4))] \<and>
   (7, Fin (1/2)) \<in> set (drop 1 (invoked (snd (run (\<lambda>cb c. False)
      [AddCallback (0::nat), StartAnimation 1000, Frame 1050, AddCallback 7, Frame 1100]
      (Animator, fresh_host)))))"
proof -
  have new: "(7::nat) \<notin> set (registered [AddCallback 0, StartAnimation 1000, Frame 1050])"
    by simp
  have st: "run (\<lambda>cb c. False) ([AddCallback (0::nat), StartAnimation 1000, Frame 1050] @ AddCallback 7 # [])
      (Animator, fresh_host) =
    (\<lparr>duration = Fin 200, callbacks = [0, 7], animationStartTime = Some 1000,
       requestAnimationFrameID = Some 2\<rparr>,
     \<lparr>pending = [2], next_handle = 3, invoked = [(0, Fin (1/4))], uncaught = []\<rparr>)"
    by (simp add: animator_defs number_defs)
  have log: "invoked (snd (run (\<lambda>cb c. False) [AddCallback (0::nat), StartAnimation 1000, Frame 1050]
      (Animator, fresh_host))) = [(0, Fin (1/4))]"
    by (simp add: animator_defs number_defs)
  have c: "getAnimationCompletionCoefficient 1100
     \<lparr>duration = Fin 200, callbacks = [0::nat, 7], animationStartTime = Some 1000,
       requestAnimationFrameID = Some 2\<rparr> = Fin (1/2)"
    by (simp add: animator_defs number_defs)
  note th = late_registration [OF new, of "\<lambda>cb c. False", THEN conjunct2, rule_format, of "[]" 1100]
  have "(7, Fin (1/2)) \<in> set (drop 1 (invoked (snd (step (\<lambda>cb c. False) (Frame 1100)
      (run (\<lambda>cb c. False) ([AddCallback (0::nat), StartAnimation 1000, Frame 1050] @ AddCallback 7 # [])
        (Animator, fresh_host))))))"
    using th unfolding st by (simp add: c)
  then have "(7, Fin (1/2)) \<in> set (drop 1 (invoked (snd (run (\<lambda>cb c. False)
      [AddCallback (0::nat), StartAnimation 1000, Frame 1050, AddCallback 7, Frame 1100]
      (Animator, fresh_host)))))"
    unfolding st by (simp add: animator_defs number_defs)
  with new log show ?thesis by blast
qed


section \<open>The coefficients of a run\<close>












end
